theory Spec2Isabelle
  imports Complex_Main
begin

section \<open>The GA basis selector of basisga.py\<close>

text \<open>
  The search routine \<^verbatim>\<open>main\<close> of \<^verbatim>\<open>basisga.py\<close> is embedded as a state
  transformer.  Floating-point numbers are read as real numbers; the log output is left
  out.  Everything the routine imports (the \<^verbatim>\<open>mc2hessian\<close> module and numpy) is a
  field of the record \<open>env\<close>, so that every statement below holds for any behaviour
  of these collaborators.
\<close>

subsection \<open>Data\<close>

type_synonym matrix = "real list list"

datatype error = ValueError | IndexError | LinAlgError

text \<open>
  \<open>'pdf\<close> is the state of the \<^verbatim>\<open>LocalPDF\<close> object together with the arrays it
  owns (\<^verbatim>\<open>prior_cv\<close> and \<^verbatim>\<open>prior_std\<close> are names for two of them, bound before
  the loop, so what they read is a function of that state too).  \<open>'rng\<close> is the state
  of numpy's global generator.
\<close>

record ('pdf, 'rng) env =
  pdf_fin :: "'pdf \<Rightarrow> int list"
  pdf_n_rep :: "'pdf \<Rightarrow> nat"
  pdf_xfxQ :: "'pdf \<Rightarrow> nat \<Rightarrow> nat \<Rightarrow> nat \<Rightarrow> real"
  pdf_f0 :: "'pdf \<Rightarrow> nat \<Rightarrow> nat \<Rightarrow> real"
  pdf_mask :: "'pdf \<Rightarrow> nat \<Rightarrow> nat \<Rightarrow> bool"
  pdf_rebase :: "'pdf \<Rightarrow> int list \<Rightarrow> 'pdf"
  pdf_pdfcovmat :: "'pdf \<Rightarrow> matrix"
  prior_cv :: "'pdf \<Rightarrow> nat \<Rightarrow> nat \<Rightarrow> real"
  prior_std :: "'pdf \<Rightarrow> nat \<Rightarrow> nat \<Rightarrow> real"
  invcov_sqrtinvcov :: "matrix \<Rightarrow> matrix \<times> matrix"
  comp_hess :: "nat \<Rightarrow> matrix \<Rightarrow> (nat \<Rightarrow> nat \<Rightarrow> nat \<Rightarrow> real) \<Rightarrow> nat \<Rightarrow> nat \<Rightarrow> real \<Rightarrow> real"
  np_seed :: "nat \<Rightarrow> 'rng"
  np_uniform :: "'rng \<Rightarrow> real \<times> 'rng"
  np_randint :: "int \<Rightarrow> int \<Rightarrow> 'rng \<Rightarrow> int \<times> 'rng"
  np_dot :: "matrix \<Rightarrow> matrix \<Rightarrow> matrix"
  np_dot_vec :: "matrix \<Rightarrow> real list \<Rightarrow> real list"
  np_lstsq :: "matrix \<Rightarrow> real list \<Rightarrow> real list option"
  np_cov :: "matrix \<Rightarrow> matrix"
  np_inv :: "matrix \<Rightarrow> matrix option"
  np_allclose :: "matrix \<Rightarrow> matrix \<Rightarrow> bool"
  np_eye :: "nat \<Rightarrow> matrix"
  np_eigh :: "matrix \<Rightarrow> (real list \<times> matrix) option"

text \<open>The locals of \<^verbatim>\<open>main\<close> that are bound once, before the loop.\<close>

record conf =
  nrep :: nat
  nf :: nat
  nx :: nat
  sqrtinvcov :: matrix
  nitemax :: int

text \<open>The locals and objects the loop updates.\<close>

record ('pdf, 'rng) state =
  nite :: int
  berf :: real
  index :: "int list"
  indextmp :: "int list"
  rng :: 'rng
  pdf :: 'pdf

datatype outcome = Degenerate | Scored real

record result =
  Iterations :: int
  Final_ERF :: real
  basis :: "int list"

subsection \<open>Candidate generation (lines 68 to 85)\<close>

definition nmut_of :: "real \<Rightarrow> nat" where
  "nmut_of g =
     (if g \<le> 0.3 then 1
      else if g > 0.3 \<and> g \<le> 0.6 then 2
      else if g > 0.6 \<and> g \<le> 0.7 then 3
      else 4)"

text \<open>\<^verbatim>\<open>numpy.random.randint(low, high)\<close> raises when the range is empty.\<close>

definition randint :: "('pdf, 'rng) env \<Rightarrow> int \<Rightarrow> int \<Rightarrow> 'rng \<Rightarrow> error + int \<times> 'rng" where
  "randint env low high r =
     (if high \<le> low then Inl ValueError else Inr (np_randint env low high r))"

text \<open>
  The rejection loop \<^verbatim>\<open>while done == False\<close>: it has no bound on the number of
  draws, so not returning is the value \<open>None\<close>.
\<close>

partial_function (option) draw_val ::
  "('pdf, 'rng) env \<Rightarrow> nat \<Rightarrow> int list \<Rightarrow> 'rng \<Rightarrow> (error + int \<times> 'rng) option" where
  "draw_val env n_rep xs r =
     (case randint env 1 (int n_rep + 1) r of
        Inl e \<Rightarrow> Some (Inl e)
      | Inr vr \<Rightarrow>
          if fst vr \<notin> set xs then Some (Inr vr)
          else draw_val env n_rep xs (snd vr))"

text \<open>\<^verbatim>\<open>indextmp[pos] = val\<close> on a one-dimensional array.\<close>

definition setitem :: "int list \<Rightarrow> int \<Rightarrow> int \<Rightarrow> error + int list" where
  "setitem xs pos val =
     (let n = int (length xs); j = (if pos < 0 then n + pos else pos)
      in if 0 \<le> j \<and> j < n then Inr (xs[nat j := val]) else Inl IndexError)"

text \<open>One pass of the body of \<^verbatim>\<open>for t in range(nmut)\<close>.\<close>

definition mutate ::
  "('pdf, 'rng) env \<Rightarrow> nat \<Rightarrow> nat \<Rightarrow> int list \<Rightarrow> 'rng \<Rightarrow> (error + int list \<times> 'rng) option" where
  "mutate env n_rep n xs r =
     (case draw_val env n_rep xs r of
        None \<Rightarrow> None
      | Some (Inl e) \<Rightarrow> Some (Inl e)
      | Some (Inr vr) \<Rightarrow>
          (case randint env 0 (int n) (snd vr) of
             Inl e \<Rightarrow> Some (Inl e)
           | Inr pr \<Rightarrow>
               (case setitem xs (fst pr) (fst vr) of
                  Inl e \<Rightarrow> Some (Inl e)
                | Inr ys \<Rightarrow> Some (Inr (ys, snd pr)))))"

primrec mutations ::
  "('pdf, 'rng) env \<Rightarrow> nat \<Rightarrow> nat \<Rightarrow> nat \<Rightarrow> int list \<Rightarrow> 'rng \<Rightarrow> (error + int list \<times> 'rng) option" where
  "mutations env n_rep n 0 xs r = Some (Inr (xs, r))"
| "mutations env n_rep n (Suc t) xs r =
     (case mutate env n_rep n xs r of
        None \<Rightarrow> None
      | Some (Inl e) \<Rightarrow> Some (Inl e)
      | Some (Inr yr) \<Rightarrow> mutations env n_rep n t (fst yr) (snd yr))"

definition generate ::
  "('pdf, 'rng) env \<Rightarrow> conf \<Rightarrow> ('pdf, 'rng) state \<Rightarrow> (error + ('pdf, 'rng) state) option" where
  "generate env c st =
     (if nite st > 0 then
        (let gr = np_uniform env (rng st)
         in case mutations env (pdf_n_rep env (pdf st)) (nrep c) (nmut_of (fst gr))
                   (index st) (snd gr) of
              None \<Rightarrow> None
            | Some (Inl e) \<Rightarrow> Some (Inl e)
            | Some (Inr yr) \<Rightarrow>
                Some (Inr (st\<lparr>indextmp := fst yr, rng := snd yr,
                               pdf := pdf_rebase env (pdf st) (fst yr)\<rparr>)))
      else Some (Inr st))"

subsection \<open>Fit, covariance and eigenvectors (lines 24 to 30 and 87 to 110)\<close>

definition grid :: "nat \<Rightarrow> nat \<Rightarrow> (nat \<times> nat) list" where
  "grid nf' nx' = concat (map (\<lambda>fi. map (\<lambda>ix. (fi, ix)) [0..<nx']) [0..<nf'])"

definition minintask ::
  "('pdf, 'rng) env \<Rightarrow> nat \<Rightarrow> matrix \<Rightarrow> nat \<Rightarrow> nat \<Rightarrow> nat \<Rightarrow> 'pdf \<Rightarrow> matrix \<Rightarrow> real list option" where
  "minintask env i A nf' nx' n p sq =
     np_lstsq env A
       (np_dot_vec env sq
          (map (\<lambda>(fi, ix). pdf_xfxQ env p i fi ix - pdf_f0 env p fi ix) (grid nf' nx')))"

definition design_matrix :: "('pdf, 'rng) env \<Rightarrow> conf \<Rightarrow> 'pdf \<Rightarrow> matrix" where
  "design_matrix env c p =
     np_dot env (sqrtinvcov c)
       (map (\<lambda>(fi, ix). map (\<lambda>r. pdf_xfxQ env p r fi ix - pdf_f0 env p fi ix) [0..<nrep c])
          (grid (nf c) (nx c)))"

text \<open>\<^verbatim>\<open>for i in range(len(vec)): vec[i] /= eigenvalues[i]**0.5\<close>\<close>

definition rescale :: "real list \<Rightarrow> matrix \<Rightarrow> error + matrix" where
  "rescale eigenvalues vec =
     (if length eigenvalues < length vec then Inl IndexError
      else Inr (fold (\<lambda>i v. v[i := map (\<lambda>a. a / sqrt (eigenvalues ! i)) (v ! i)])
                  [0..<length vec] vec))"

subsection \<open>Score (lines 113 to 120)\<close>

definition erf_step ::
  "('pdf, 'rng) env \<Rightarrow> nat \<Rightarrow> matrix \<Rightarrow> 'pdf \<Rightarrow> nat \<Rightarrow> nat \<Rightarrow> real \<Rightarrow> real" where
  "erf_step env n vec p f x est =
     (if pdf_mask env p f x then
        (let cv = prior_cv env p f x;
             t0 = prior_std env p f x;
             t1 = comp_hess env n vec (pdf_xfxQ env p) f x cv
         in if t0 \<noteq> 0 then est + \<bar>(t1 - t0) / t0\<bar> else est)
      else est)"

definition erf :: "('pdf, 'rng) env \<Rightarrow> conf \<Rightarrow> matrix \<Rightarrow> 'pdf \<Rightarrow> real" where
  "erf env c vec p =
     fold (\<lambda>f est. fold (\<lambda>x est. erf_step env (nrep c) vec p f x est) [0..<nx c] est)
       [0..<nf c] 0"

definition evaluate :: "('pdf, 'rng) env \<Rightarrow> conf \<Rightarrow> 'pdf \<Rightarrow> error + outcome" where
  "evaluate env c p =
     (let A = design_matrix env c p
      in case those (map (\<lambda>i. minintask env i A (nf c) (nx c) (nrep c) p (sqrtinvcov c))
                       [0..<pdf_n_rep env p]) of
           None \<Rightarrow> Inl LinAlgError
         | Some an \<Rightarrow>
             (let acov = np_cov env an
              in case np_inv env acov of
                   None \<Rightarrow> Inl LinAlgError
                 | Some ainvcov \<Rightarrow>
                     if \<not> np_allclose env (np_dot env acov ainvcov) (np_eye env (length acov))
                     then Inr Degenerate
                     else (case np_eigh env ainvcov of
                             None \<Rightarrow> Inl LinAlgError
                           | Some ev \<Rightarrow>
                               (case rescale (fst ev) (snd ev) of
                                  Inl e \<Rightarrow> Inl e
                                | Inr vec \<Rightarrow> Inr (Scored (erf env c vec p))))))"

subsection \<open>The search loop (lines 66 to 128) and main\<close>

definition accept :: "('pdf, 'rng) state \<Rightarrow> real \<Rightarrow> ('pdf, 'rng) state" where
  "accept st est = (if est < berf st then st\<lparr>berf := est, index := indextmp st\<rparr> else st)"

text \<open>One pass of the body of \<^verbatim>\<open>while (nite < nitemax)\<close>.\<close>

definition iteration ::
  "('pdf, 'rng) env \<Rightarrow> conf \<Rightarrow> ('pdf, 'rng) state \<Rightarrow> (error + ('pdf, 'rng) state) option" where
  "iteration env c st =
     (case generate env c st of
        None \<Rightarrow> None
      | Some (Inl e) \<Rightarrow> Some (Inl e)
      | Some (Inr st1) \<Rightarrow>
          (case evaluate env c (pdf st1) of
             Inl e \<Rightarrow> Some (Inl e)
           | Inr Degenerate \<Rightarrow> Some (Inr st1)
           | Inr (Scored est) \<Rightarrow>
               Some (Inr ((accept st1 est)\<lparr>nite := nite st1 + 1\<rparr>))))"

partial_function (option) main_loop ::
  "('pdf, 'rng) env \<Rightarrow> conf \<Rightarrow> ('pdf, 'rng) state \<Rightarrow> (error + ('pdf, 'rng) state) option" where
  "main_loop env c st =
     (if nite st < nitemax c then
        (case iteration env c st of
           None \<Rightarrow> None
         | Some (Inl e) \<Rightarrow> Some (Inl e)
         | Some (Inr st') \<Rightarrow> main_loop env c st')
      else Some (Inr st))"

text \<open>
  The state at the head of the loop.  \<open>p0\<close> is the \<^verbatim>\<open>LocalPDF\<close> object as
  constructed, \<open>n\<close> and \<open>max_iters\<close> are the arguments \<^verbatim>\<open>nrep\<close> and
  \<^verbatim>\<open>max_iters\<close>, \<open>nf'\<close> and \<open>nx'\<close> are \<^verbatim>\<open>Flavors().n\<close> and \<^verbatim>\<open>XGrid().n\<close>,
  and \<open>g\<close> is the state of the global generator when \<^verbatim>\<open>main\<close> is called.
\<close>

definition init_conf :: "('pdf, 'rng) env \<Rightarrow> 'pdf \<Rightarrow> nat \<Rightarrow> nat \<Rightarrow> nat \<Rightarrow> int \<Rightarrow> conf" where
  "init_conf env p0 n nf' nx' max_iters =
     \<lparr>nrep = n, nf = nf', nx = nx',
      sqrtinvcov = snd (invcov_sqrtinvcov env (pdf_pdfcovmat env p0)),
      nitemax = max_iters\<rparr>"

definition init_state :: "('pdf, 'rng) env \<Rightarrow> 'pdf \<Rightarrow> 'rng \<Rightarrow> ('pdf, 'rng) state" where
  "init_state env p0 g =
     \<lparr>nite = 0, berf = 10 ^ 8, index = pdf_fin env p0, indextmp = pdf_fin env p0,
      rng = np_seed env 0, pdf = p0\<rparr>"

definition main ::
  "('pdf, 'rng) env \<Rightarrow> 'pdf \<Rightarrow> nat \<Rightarrow> nat \<Rightarrow> nat \<Rightarrow> int \<Rightarrow> 'rng \<Rightarrow> (error + result) option" where
  "main env p0 n nf' nx' max_iters g =
     (case main_loop env (init_conf env p0 n nf' nx' max_iters) (init_state env p0 g) of
        None \<Rightarrow> None
      | Some (Inl e) \<Rightarrow> Some (Inl e)
      | Some (Inr st) \<Rightarrow>
          Some (Inr \<lparr>Iterations = max_iters, Final_ERF = berf st, basis = sort (index st)\<rparr>))"

subsection \<open>A small instance\<close>

text \<open>
  An instance of \<open>env\<close> on which the definitions can be run: three replicas on a grid
  of one point, a basis of one replica, exact linear algebra for matrices with one column,
  and a counter as random generator.  The coefficient matrix has one column, and its
  covariance and the inverse are taken as matrices with one entry.  \<open>s\<close> is the prior
  standard deviation at the grid point and \<open>recip\<close> the reciprocal used by the matrix
  inverse, so that a routine of limited accuracy can be put in its place.
\<close>

definition mat_vec :: "matrix \<Rightarrow> real list \<Rightarrow> real list" where
  "mat_vec A v = map (\<lambda>row. sum_list (map2 (*) row v)) A"

definition column :: "nat \<Rightarrow> matrix \<Rightarrow> real list" where
  "column j B = map (\<lambda>row. row ! j) B"

definition mat_mul :: "matrix \<Rightarrow> matrix \<Rightarrow> matrix" where
  "mat_mul A B =
     map (\<lambda>row. map (\<lambda>j. sum_list (map2 (*) row (column j B))) [0..<length (hd B)]) A"

definition eye :: "nat \<Rightarrow> matrix" where
  "eye n = map (\<lambda>i. map (\<lambda>j. if i = j then 1 else 0) [0..<n]) [0..<n]"

definition allclose :: "matrix \<Rightarrow> matrix \<Rightarrow> bool" where
  "allclose A B =
     list_all2 (list_all2 (\<lambda>a b. \<bar>a - b\<bar> \<le> 1 / 10 ^ 8 + \<bar>b\<bar> / 10 ^ 5)) A B"

definition lstsq1 :: "matrix \<Rightarrow> real list \<Rightarrow> real list option" where
  "lstsq1 A b =
     (let col = map hd A; d = sum_list (map2 (*) col col)
      in Some [if d = 0 then 0 else sum_list (map2 (*) col b) / d])"

definition cov1 :: "matrix \<Rightarrow> matrix" where
  "cov1 an =
     (let col = map hd an; m = sum_list col / real (length col)
      in [[sum_list (map (\<lambda>a. (a - m) * (a - m)) col) / (real (length col) - 1)]])"

definition demo_env :: "real \<Rightarrow> (real \<Rightarrow> real) \<Rightarrow> (int list, nat) env" where
  "demo_env s recip =
     \<lparr>pdf_fin = (\<lambda>p. p),
      pdf_n_rep = (\<lambda>p. 3),
      pdf_xfxQ = (\<lambda>p r f x. real_of_int ((hd p - 1 + int r) mod 3 + 1)),
      pdf_f0 = (\<lambda>p f x. 0),
      pdf_mask = (\<lambda>p f x. True),
      pdf_rebase = (\<lambda>p ys. ys),
      pdf_pdfcovmat = (\<lambda>p. [[1]]),
      prior_cv = (\<lambda>p f x. 2),
      prior_std = (\<lambda>p f x. s),
      invcov_sqrtinvcov = (\<lambda>m. (m, m)),
      comp_hess = (\<lambda>n vec xfx f x cv. \<bar>hd (hd vec) * (xfx 0 f x - cv)\<bar>),
      np_seed = (\<lambda>k. k),
      np_uniform = (\<lambda>r. (real (r mod 10) / 10, Suc r)),
      np_randint = (\<lambda>low high r. (low + int r mod (high - low), Suc r)),
      np_dot = mat_mul,
      np_dot_vec = mat_vec,
      np_lstsq = lstsq1,
      np_cov = cov1,
      np_inv = (\<lambda>m. if hd (hd m) = 0 then None else Some [[recip (hd (hd m))]]),
      np_allclose = allclose,
      np_eye = eye,
      np_eigh = (\<lambda>m. Some ([hd (hd m)], [[1]]))\<rparr>"

definition demo_conf :: "int \<Rightarrow> conf" where
  "demo_conf k = \<lparr>nrep = 1, nf = 1, nx = 1, sqrtinvcov = [[1]], nitemax = k\<rparr>"

text \<open>A reciprocal that is one percent too small.\<close>

definition coarse :: "real \<Rightarrow> real" where
  "coarse v = 99 / (100 * v)"

text \<open>
  The same instance with five replicas, a basis of three and the accepted set
  \<open>[1, 2, 3]\<close>, for running candidate generation; \<open>demo_state r xs\<close> is a state with
  counter 1, generator state \<open>r\<close> and candidate \<open>xs\<close>.
\<close>

definition demo_env5 :: "(int list, nat) env" where
  "demo_env5 = (demo_env 1 inverse)\<lparr>pdf_n_rep := \<lambda>p. 5\<rparr>"

definition demo_conf3 :: conf where
  "demo_conf3 = (demo_conf 2)\<lparr>nrep := 3\<rparr>"

definition demo_state :: "nat \<Rightarrow> int list \<Rightarrow> (int list, nat) state" where
  "demo_state r xs = \<lparr>nite = 1, berf = 0, index = [1, 2, 3], indextmp = xs, rng = r, pdf = xs\<rparr>"

text \<open>The guarantee of \<^verbatim>\<open>numpy.random.randint\<close>: the draw lies in \<open>[low, high)\<close>.\<close>

definition rng_ok :: "('pdf, 'rng) env \<Rightarrow> bool" where
  "rng_ok env \<longleftrightarrow>
     (\<forall>low high r. low < high \<longrightarrow>
        low \<le> fst (np_randint env low high r) \<and> fst (np_randint env low high r) < high)"

section \<open>Auxiliary facts\<close>

lemma upt3: "[0..<3] = [0, 1, 2]"
  by (simp add: eval_nat_numeral)

lemma demo_env_sel [simp]:
  "pdf_fin (demo_env s rc) = (\<lambda>p. p)"
  "pdf_n_rep (demo_env s rc) = (\<lambda>p. 3)"
  "pdf_xfxQ (demo_env s rc) = (\<lambda>p r f x. real_of_int ((hd p - 1 + int r) mod 3 + 1))"
  "pdf_f0 (demo_env s rc) = (\<lambda>p f x. 0)"
  "pdf_mask (demo_env s rc) = (\<lambda>p f x. True)"
  "pdf_rebase (demo_env s rc) = (\<lambda>p ys. ys)"
  "pdf_pdfcovmat (demo_env s rc) = (\<lambda>p. [[1]])"
  "prior_cv (demo_env s rc) = (\<lambda>p f x. 2)"
  "prior_std (demo_env s rc) = (\<lambda>p f x. s)"
  "invcov_sqrtinvcov (demo_env s rc) = (\<lambda>m. (m, m))"
  "comp_hess (demo_env s rc) = (\<lambda>n vec xfx f x cv. \<bar>hd (hd vec) * (xfx 0 f x - cv)\<bar>)"
  "np_seed (demo_env s rc) = (\<lambda>k. k)"
  "np_uniform (demo_env s rc) = (\<lambda>r. (real (r mod 10) / 10, Suc r))"
  "np_randint (demo_env s rc) = (\<lambda>low high r. (low + int r mod (high - low), Suc r))"
  "np_dot (demo_env s rc) = mat_mul"
  "np_dot_vec (demo_env s rc) = mat_vec"
  "np_lstsq (demo_env s rc) = lstsq1"
  "np_cov (demo_env s rc) = cov1"
  "np_inv (demo_env s rc) = (\<lambda>m. if hd (hd m) = 0 then None else Some [[rc (hd (hd m))]])"
  "np_allclose (demo_env s rc) = allclose"
  "np_eye (demo_env s rc) = eye"
  "np_eigh (demo_env s rc) = (\<lambda>m. Some ([hd (hd m)], [[1]]))"
  by (simp_all add: demo_env_def)

lemmas demo_defs = mat_vec_def mat_mul_def column_def eye_def allclose_def lstsq1_def cov1_def
  evaluate_def design_matrix_def minintask_def grid_def rescale_def erf_def erf_step_def
  demo_conf_def coarse_def

lemma demo_init_conf: "init_conf (demo_env s rc) p 1 1 1 k = demo_conf k"
  by (simp add: init_conf_def demo_conf_def)

lemma demo_eval_1: "evaluate (demo_env 1 inverse) (demo_conf k) [1] = Inr (Scored 0)"
  by (simp add: demo_defs Let_def upt3)

lemma demo_eval_2: "evaluate (demo_env 1 inverse) (demo_conf k) [2] = Inr (Scored 1)"
  by (simp add: demo_defs Let_def upt3)

lemma demo_eval_big:
  "evaluate (demo_env (1 / (10 ^ 9 + 1)) inverse) (demo_conf k) [1] = Inr (Scored (10 ^ 9))"
  by (simp add: demo_defs Let_def upt3)

lemma demo_eval_coarse_1: "evaluate (demo_env 1 coarse) (demo_conf k) [1] = Inr Degenerate"
  by (simp add: demo_defs Let_def upt3)

lemma demo_eval_coarse_2: "evaluate (demo_env 1 coarse) (demo_conf k) [2] = Inr Degenerate"
  by (simp add: demo_defs Let_def upt3)

lemma demo_rng_ok: "rng_ok (demo_env s rc)"
proof -
  have "low + int r mod (high - low) < high" if "low < high" for low high :: int and r :: nat
    using pos_mod_bound [of "high - low" "int r"] that by linarith
  then show ?thesis
    by (simp add: rng_ok_def)
qed

lemma draw_val_hit:
  "0 < n_rep \<Longrightarrow> fst (np_randint env 1 (int n_rep + 1) r) \<notin> set xs \<Longrightarrow>
   draw_val env n_rep xs r = Some (Inr (np_randint env 1 (int n_rep + 1) r))"
  by (subst draw_val.simps) (simp add: randint_def)

lemma draw_val_miss:
  "0 < n_rep \<Longrightarrow> fst (np_randint env 1 (int n_rep + 1) r) \<in> set xs \<Longrightarrow>
   draw_val env n_rep xs r =
   draw_val env n_rep xs (snd (np_randint env 1 (int n_rep + 1) r))"
  by (subst draw_val.simps) (simp add: randint_def)

lemmas demo_mut = mutate_def randint_def setitem_def draw_val_hit draw_val_miss Let_def

lemma main_loop_step:
  "nite st < nitemax c \<Longrightarrow> iteration env c st = Some (Inr st') \<Longrightarrow>
   main_loop env c st = main_loop env c st'"
  by (subst main_loop.simps) simp

lemma main_loop_exit: "\<not> nite st < nitemax c \<Longrightarrow> main_loop env c st = Some (Inr st)"
  by (subst main_loop.simps) simp

lemma fold_erf_step:
  "fold (\<lambda>x est. erf_step env n vec p f x est) [0..<k] a =
   a + (\<Sum>x<k. if pdf_mask env p f x \<and> prior_std env p f x \<noteq> 0
               then \<bar>(comp_hess env n vec (pdf_xfxQ env p) f x (prior_cv env p f x)
                       - prior_std env p f x) / prior_std env p f x\<bar> else 0)"
  by (induction k arbitrary: a) (simp_all add: erf_step_def Let_def)

lemma fold_add_sum:
  "fold (\<lambda>f est. est + h f) [0..<k] (a::real) = a + (\<Sum>f<k. h f)"
  by (induction k arbitrary: a) simp_all

lemma sum_grid:
  fixes t :: "nat \<Rightarrow> nat \<Rightarrow> real"
  shows "(\<Sum>f<a. \<Sum>x<b. if ok f x then t f x else 0) =
         (\<Sum>(f, x) \<in> {(f, x). f < a \<and> x < b \<and> ok f x}. t f x)"
proof -
  have "(\<Sum>f<a. \<Sum>x<b. if ok f x then t f x else 0) =
        (\<Sum>fx \<in> {..<a} \<times> {..<b}. if ok (fst fx) (snd fx) then t (fst fx) (snd fx) else 0)"
    by (simp add: sum.cartesian_product case_prod_beta)
  also have "\<dots> = (\<Sum>fx \<in> {fx \<in> {..<a} \<times> {..<b}. ok (fst fx) (snd fx)}. t (fst fx) (snd fx))"
    by (simp add: sum.inter_filter)
  also have "{fx \<in> {..<a} \<times> {..<b}. ok (fst fx) (snd fx)} = {(f, x). f < a \<and> x < b \<and> ok f x}"
    by auto
  finally show ?thesis
    by (simp add: case_prod_beta)
qed

lemma generate_zero: "\<not> 0 < nite st \<Longrightarrow> generate env c st = Some (Inr st)"
  by (simp add: generate_def)

lemma generate_keeps:
  assumes "generate env c st = Some (Inr st1)"
  shows "index st1 = index st" and "berf st1 = berf st" and "nite st1 = nite st"
  using assms
  by (auto simp add: generate_def Let_def split: if_splits option.splits sum.splits)

lemma generate_changes:
  assumes "generate env c st = Some (Inr st1)" and "st1 \<noteq> st"
  shows "0 < nite st"
  using assms by (auto simp add: generate_def split: if_splits)

lemma accept_le: "berf (accept st est) \<le> berf st"
  by (simp add: accept_def)

lemma iteration_scored:
  "generate env c st = Some (Inr st1) \<Longrightarrow> evaluate env c (pdf st1) = Inr (Scored est) \<Longrightarrow>
   iteration env c st = Some (Inr ((accept st1 est)\<lparr>nite := nite st1 + 1\<rparr>))"
  by (simp add: iteration_def)

lemma iteration_degenerate:
  "generate env c st = Some (Inr st1) \<Longrightarrow> evaluate env c (pdf st1) = Inr Degenerate \<Longrightarrow>
   iteration env c st = Some (Inr st1)"
  by (simp add: iteration_def)

lemma iteration_berf_le:
  assumes "iteration env c st = Some (Inr st')"
  shows "berf st' \<le> berf st"
proof -
  from assms obtain st1 where g: "generate env c st = Some (Inr st1)"
    by (auto simp add: iteration_def split: option.splits sum.splits)
  show ?thesis
  proof (cases "evaluate env c (pdf st1)")
    case (Inl e)
    with g assms show ?thesis by (simp add: iteration_def)
  next
    case (Inr out)
    show ?thesis
    proof (cases out)
      case Degenerate
      with Inr g assms have "st' = st1" by (simp add: iteration_def)
      with generate_keeps(2) [OF g] show ?thesis by simp
    next
      case (Scored est)
      with Inr g assms have "st' = (accept st1 est)\<lparr>nite := nite st1 + 1\<rparr>"
        by (simp add: iteration_def)
      with accept_le [of st1 est] generate_keeps(2) [OF g] show ?thesis by simp
    qed
  qed
qed

lemma main_loop_berf_le_aux:
  fixes env :: "('pdf, 'rng) env"
  assumes "main_loop env c st = Some y"
  shows "\<forall>st'. y = Inr st' \<longrightarrow> berf st' \<le> berf st"
proof (rule main_loop.raw_induct [where P = "\<lambda>env c st y. \<forall>st'. y = Inr st' \<longrightarrow> berf st' \<le> berf st",
      OF _ assms])
  fix f :: "('pdf, 'rng) env \<Rightarrow> conf \<Rightarrow> ('pdf, 'rng) state \<Rightarrow> (error + ('pdf, 'rng) state) option"
    and env :: "('pdf, 'rng) env" and c st y
  assume IH: "\<And>env c st y. f env c st = Some y \<Longrightarrow> \<forall>st'. y = Inr st' \<longrightarrow> berf st' \<le> berf st"
  assume body: "(if nite st < nitemax c then
        (case iteration env c st of
           None \<Rightarrow> None
         | Some (Inl e) \<Rightarrow> Some (Inl e)
         | Some (Inr st') \<Rightarrow> f env c st')
      else Some (Inr st)) = Some y"
  show "\<forall>st'. y = Inr st' \<longrightarrow> berf st' \<le> berf st"
  proof (cases "nite st < nitemax c")
    case False
    with body show ?thesis by auto
  next
    case True
    show ?thesis
    proof (cases "iteration env c st")
      case None
      with True body show ?thesis by simp
    next
      case (Some res)
      show ?thesis
      proof (cases res)
        case (Inl e)
        with Some True body show ?thesis by auto
      next
        case (Inr st1)
        with Some True body have "f env c st1 = Some y" by simp
        from IH [OF this] iteration_berf_le [of env c st st1] Some Inr
        show ?thesis by fastforce
      qed
    qed
  qed
qed

lemma main_loop_stuck_aux:
  fixes env :: "('pdf, 'rng) env"
  assumes "main_loop env c st = Some y"
  shows "\<not> (nite st = 0 \<and> 0 < nitemax c \<and> evaluate env c (pdf st) = Inr Degenerate)"
proof (rule main_loop.raw_induct [where P = "\<lambda>env c st y.
      \<not> (nite st = 0 \<and> 0 < nitemax c \<and> evaluate env c (pdf st) = Inr Degenerate)", OF _ assms])
  fix f :: "('pdf, 'rng) env \<Rightarrow> conf \<Rightarrow> ('pdf, 'rng) state \<Rightarrow> (error + ('pdf, 'rng) state) option"
    and env :: "('pdf, 'rng) env" and c st y
  assume IH: "\<And>env c st y. f env c st = Some y \<Longrightarrow>
      \<not> (nite st = 0 \<and> 0 < nitemax c \<and> evaluate env c (pdf st) = Inr Degenerate)"
  assume body: "(if nite st < nitemax c then
        (case iteration env c st of
           None \<Rightarrow> None
         | Some (Inl e) \<Rightarrow> Some (Inl e)
         | Some (Inr st') \<Rightarrow> f env c st')
      else Some (Inr st)) = Some y"
  show "\<not> (nite st = 0 \<and> 0 < nitemax c \<and> evaluate env c (pdf st) = Inr Degenerate)"
  proof
    assume stuck: "nite st = 0 \<and> 0 < nitemax c \<and> evaluate env c (pdf st) = Inr Degenerate"
    then have "generate env c st = Some (Inr st)" by (simp add: generate_zero)
    with stuck have "iteration env c st = Some (Inr st)" by (simp add: iteration_degenerate)
    with stuck body have "f env c st = Some y" by simp
    from IH [OF this] stuck show False by simp
  qed
qed

section \<open>The eigenvector rescaling\<close>

text \<open>
  For every input the loop of line 110 divides row \<open>i\<close> of \<^verbatim>\<open>vec\<close> by the square root
  of eigenvalue \<open>i\<close>.
\<close>

lemma fold_rows:
  "k \<le> length v \<Longrightarrow>
   fold (\<lambda>i v. v[i := g i (v ! i)]) [0..<k] v =
   map (\<lambda>i. if i < k then g i (v ! i) else v ! i) [0..<length v]"
proof (induction k)
  case 0
  then show ?case by (simp add: map_nth)
next
  case (Suc k)
  then have IH: "fold (\<lambda>i v. v[i := g i (v ! i)]) [0..<k] v =
      map (\<lambda>i. if i < k then g i (v ! i) else v ! i) [0..<length v]"
    by simp
  show ?case
    using Suc.prems unfolding upt_Suc_append [OF le0] fold_append comp_def IH
    by (auto intro!: nth_equalityI simp add: nth_list_update less_Suc_eq)
qed

lemma rescale_rows:
  assumes "length vec \<le> length eigenvalues"
  shows "rescale eigenvalues vec =
   Inr (map (\<lambda>i. map (\<lambda>a. a / sqrt (eigenvalues ! i)) (vec ! i)) [0..<length vec])"
proof -
  let ?g = "\<lambda>i row. map (\<lambda>a. a / sqrt (eigenvalues ! i)) row"
  have "fold (\<lambda>i v. v[i := ?g i (v ! i)]) [0..<length vec] vec =
      map (\<lambda>i. if i < length vec then ?g i (vec ! i) else vec ! i) [0..<length vec]"
    by (rule fold_rows) simp
  also have "\<dots> = map (\<lambda>i. ?g i (vec ! i)) [0..<length vec]"
    by (rule map_cong) simp_all
  finally show ?thesis
    using assms by (simp add: rescale_def)
qed

text \<open>
  C2.  After \<^verbatim>\<open>eigh\<close>, each eigenvector, that is each column of the matrix
  \<^verbatim>\<open>vec\<close>, is to be divided by the square root of its own eigenvalue.  The loop
  \<^verbatim>\<open>vec[i] /= eigenvalues[i]**0.5\<close> divides row \<open>i\<close> instead.  For the symmetric matrix
  with rows \<open>(73/25, 36/25)\<close> and \<open>(36/25, 52/25)\<close> the eigenvalues are 1 and 4 and the
  normalised eigenvectors are the columns \<open>(3/5, -4/5)\<close> and \<open>(4/5, 3/5)\<close> (the second
  conjunct checks this).  The loop leaves the first row as it is and halves the second,
  so the second eigenvector becomes \<open>(4/5, 3/10)\<close> and not \<open>(2/5, 3/10)\<close>.
\<close>

theorem rescale_rows_not_columns:
  "rescale [1, 4] [[3/5, 4/5], [-4/5, 3/5]] = Inr [[3/5, 4/5], [-2/5, 3/10]] \<and>
   mat_mul [[73/25, 36/25], [36/25, 52/25]] [[3/5, 4/5], [-4/5, 3/5]] =
     mat_mul [[3/5, 4/5], [-4/5, 3/5]] [[1, 0], [0, 4]] \<and>
   column 1 [[3/5, 4/5], [-2/5, 3/10]] \<noteq>
     map (\<lambda>a. a / sqrt 4) (column 1 [[3/5, 4/5], [-4/5, 3/5]])"
  by (simp add: rescale_def mat_mul_def column_def eval_nat_numeral)

section \<open>The score\<close>

text \<open>
  C5.  The ERF is the sum of \<open>\<bar>(estimate - prior) / prior\<bar>\<close> over exactly the grid
  points that the mask marks valid and whose prior standard deviation is not zero; at a
  point that the mask excludes, or whose prior standard deviation is zero, the running sum
  is left as it is, whatever the estimate there.
\<close>

theorem erf_is_sum:
  "erf env c vec p =
     (\<Sum>(f, x) \<in> {(f, x). f < nf c \<and> x < nx c \<and> pdf_mask env p f x \<and> prior_std env p f x \<noteq> 0}.
        \<bar>(comp_hess env (nrep c) vec (pdf_xfxQ env p) f x (prior_cv env p f x)
           - prior_std env p f x) / prior_std env p f x\<bar>) \<and>
   (\<not> pdf_mask env p f x \<or> prior_std env p f x = 0 \<longrightarrow>
      erf_step env (nrep c) vec p f x est = est)"
proof -
  have "erf env c vec p =
     (\<Sum>f<nf c. \<Sum>x<nx c. if pdf_mask env p f x \<and> prior_std env p f x \<noteq> 0
        then \<bar>(comp_hess env (nrep c) vec (pdf_xfxQ env p) f x (prior_cv env p f x)
           - prior_std env p f x) / prior_std env p f x\<bar> else 0)"
    unfolding erf_def fold_erf_step fold_add_sum by simp
  then show ?thesis
    unfolding sum_grid by (auto simp add: erf_step_def)
qed

theorem erf_is_sum_witness:
  "erf (demo_env 1 inverse) (demo_conf 2) [[1 / 3]] [3] = 2 / 3 \<and>
   erf (demo_env 0 inverse) (demo_conf 2) [[1 / 3]] [3] = 0 \<and>
   erf_step (demo_env 0 inverse) (nrep (demo_conf 2)) [[1 / 3]] [3] 0 0 5 = 5"
  using erf_is_sum [of "demo_env 1 inverse" "demo_conf 2" "[[1 / 3]]" "[3]" 0 0 5]
    erf_is_sum [of "demo_env 0 inverse" "demo_conf 2" "[[1 / 3]]" "[3]" 0 0 5]
  by (simp add: demo_conf_def)

section \<open>Candidate generation\<close>

text \<open>
  A mutation that returns overwrites one position of the set with a value that the set
  does not contain, and a run of \<open>t\<close> mutations that returns is a chain of exactly \<open>t\<close>
  such steps.
\<close>

lemma draw_val_fresh_aux:
  fixes env :: "('pdf, 'rng) env"
  assumes "draw_val env N xs r = Some y"
  shows "\<forall>vr. y = Inr vr \<longrightarrow> fst vr \<notin> set xs"
proof (rule draw_val.raw_induct [where P = "\<lambda>env N xs r y. \<forall>vr. y = Inr vr \<longrightarrow> fst vr \<notin> set xs",
      OF _ assms])
  fix f :: "('pdf, 'rng) env \<Rightarrow> nat \<Rightarrow> int list \<Rightarrow> 'rng \<Rightarrow> (error + int \<times> 'rng) option"
    and env :: "('pdf, 'rng) env" and N xs r y
  assume IH: "\<And>env N xs r y. f env N xs r = Some y \<Longrightarrow> \<forall>vr. y = Inr vr \<longrightarrow> fst vr \<notin> set xs"
  assume body: "(case randint env 1 (int N + 1) r of
        Inl e \<Rightarrow> Some (Inl e)
      | Inr vr \<Rightarrow> if fst vr \<notin> set xs then Some (Inr vr) else f env N xs (snd vr)) = Some y"
  show "\<forall>vr. y = Inr vr \<longrightarrow> fst vr \<notin> set xs"
  proof (cases "randint env 1 (int N + 1) r")
    case (Inl e)
    with body show ?thesis by auto
  next
    case (Inr vr)
    show ?thesis
    proof (cases "fst vr \<in> set xs")
      case True
      with Inr body have "f env N xs (snd vr) = Some y" by simp
      then show ?thesis by (rule IH)
    next
      case False
      with Inr body show ?thesis by auto
    qed
  qed
qed

lemma mutate_single_position:
  assumes "mutate env N n xs r = Some (Inr (ys, r'))"
  shows "\<exists>j<length xs. \<exists>v. v \<notin> set xs \<and> ys = xs[j := v]"
proof -
  from assms obtain vr pr where d: "draw_val env N xs r = Some (Inr vr)"
    and s: "setitem xs (fst pr) (fst vr) = Inr ys"
    by (auto simp add: mutate_def split: option.splits sum.splits)
  from draw_val_fresh_aux [OF d] have v: "fst vr \<notin> set xs" by simp
  have "\<exists>j<length xs. ys = xs[j := fst vr]"
  proof (cases "fst pr < 0")
    case True
    with s have a: "0 \<le> int (length xs) + fst pr"
      and b: "ys = xs[nat (int (length xs) + fst pr) := fst vr]"
      by (auto simp add: setitem_def Let_def split: if_splits)
    from True a have "nat (int (length xs) + fst pr) < length xs" by linarith
    with b show ?thesis by blast
  next
    case False
    with s have a: "fst pr < int (length xs)" and b: "ys = xs[nat (fst pr) := fst vr]"
      by (auto simp add: setitem_def Let_def split: if_splits)
    from False a have "nat (fst pr) < length xs" by linarith
    with b show ?thesis by blast
  qed
  with v show ?thesis by blast
qed

lemma mutations_trace:
  assumes "mutations env N n t xs r = Some (Inr (ys, r'))"
  shows "\<exists>tr. length tr = t + 1 \<and> hd tr = (xs, r) \<and> last tr = (ys, r') \<and>
    (\<forall>i<t. mutate env N n (fst (tr ! i)) (snd (tr ! i)) = Some (Inr (tr ! Suc i)))"
  using assms
proof (induction t arbitrary: xs r)
  case 0
  then have "ys = xs" "r' = r" by simp_all
  then show ?case by (intro exI [of _ "[(xs, r)]"]) simp
next
  case (Suc t)
  from Suc.prems obtain zs r1 where m: "mutate env N n xs r = Some (Inr (zs, r1))"
    and rest: "mutations env N n t zs r1 = Some (Inr (ys, r'))"
    by (auto split: option.splits sum.splits)
  from Suc.IH [OF rest] obtain tr where tr: "length tr = t + 1" "hd tr = (zs, r1)"
    "last tr = (ys, r')"
    "\<forall>i<t. mutate env N n (fst (tr ! i)) (snd (tr ! i)) = Some (Inr (tr ! Suc i))"
    by blast
  from tr(1) have ne: "tr \<noteq> []" by auto
  with tr(2) have t0: "tr ! 0 = (zs, r1)" by (simp add: hd_conv_nth)
  have "\<forall>i<Suc t. mutate env N n (fst (((xs, r) # tr) ! i)) (snd (((xs, r) # tr) ! i)) =
      Some (Inr (((xs, r) # tr) ! Suc i))"
  proof (intro allI impI)
    fix i assume "i < Suc t"
    then show "mutate env N n (fst (((xs, r) # tr) ! i)) (snd (((xs, r) # tr) ! i)) =
      Some (Inr (((xs, r) # tr) ! Suc i))"
      using m t0 tr(4) by (cases i) simp_all
  qed
  with tr(1,3) ne show ?case
    by (intro exI [of _ "(xs, r) # tr"]) simp
qed

text \<open>
  C6.  In an iteration with \<open>nite > 0\<close> the number of mutations comes from one uniform
  draw \<open>g\<close>: 1 for \<open>g \<le> 0.3\<close>, 2 for \<open>0.3 < g \<le> 0.6\<close>, 3 for \<open>0.6 < g \<le> 0.7\<close>
  and 4 otherwise.  When candidate generation returns, the candidate is reached from the
  copy of the accepted set by a chain of exactly that many mutations, each taking the
  generator state the previous one left and each overwriting a single position.
\<close>

theorem mutation_count:
  "(g \<le> 0.3 \<longrightarrow> nmut_of g = 1) \<and>
   (0.3 < g \<and> g \<le> 0.6 \<longrightarrow> nmut_of g = 2) \<and>
   (0.6 < g \<and> g \<le> 0.7 \<longrightarrow> nmut_of g = 3) \<and>
   (0.7 < g \<longrightarrow> nmut_of g = 4) \<and>
   (0 < nite st \<longrightarrow>
      generate env c st =
        map_option (map_sum id (\<lambda>yr. st\<lparr>indextmp := fst yr, rng := snd yr,
                                         pdf := pdf_rebase env (pdf st) (fst yr)\<rparr>))
          (mutations env (pdf_n_rep env (pdf st)) (nrep c)
             (nmut_of (fst (np_uniform env (rng st)))) (index st)
             (snd (np_uniform env (rng st))))) \<and>
   (0 < nite st \<and> generate env c st = Some (Inr st1) \<longrightarrow>
      (\<exists>tr. length tr = nmut_of (fst (np_uniform env (rng st))) + 1 \<and>
            hd tr = (index st, snd (np_uniform env (rng st))) \<and>
            last tr = (indextmp st1, rng st1) \<and>
            (\<forall>i < nmut_of (fst (np_uniform env (rng st))).
               mutate env (pdf_n_rep env (pdf st)) (nrep c) (fst (tr ! i)) (snd (tr ! i)) =
                 Some (Inr (tr ! Suc i)) \<and>
               (\<exists>j < length (fst (tr ! i)). \<exists>v. v \<notin> set (fst (tr ! i)) \<and>
                  fst (tr ! Suc i) = (fst (tr ! i))[j := v]))))"
proof -
  let ?k = "nmut_of (fst (np_uniform env (rng st)))"
  let ?N = "pdf_n_rep env (pdf st)"
  have gen: "generate env c st =
        map_option (map_sum id (\<lambda>yr. st\<lparr>indextmp := fst yr, rng := snd yr,
                                         pdf := pdf_rebase env (pdf st) (fst yr)\<rparr>))
          (mutations env ?N (nrep c) ?k (index st) (snd (np_uniform env (rng st))))"
    if "0 < nite st"
    using that by (auto simp add: generate_def Let_def split: option.splits sum.splits)
  have trace: "\<exists>tr. length tr = ?k + 1 \<and>
            hd tr = (index st, snd (np_uniform env (rng st))) \<and>
            last tr = (indextmp st1, rng st1) \<and>
            (\<forall>i < ?k.
               mutate env ?N (nrep c) (fst (tr ! i)) (snd (tr ! i)) = Some (Inr (tr ! Suc i)) \<and>
               (\<exists>j < length (fst (tr ! i)). \<exists>v. v \<notin> set (fst (tr ! i)) \<and>
                  fst (tr ! Suc i) = (fst (tr ! i))[j := v]))"
    if h: "0 < nite st \<and> generate env c st = Some (Inr st1)"
  proof -
    from h gen obtain ys r' where
      m: "mutations env ?N (nrep c) ?k (index st) (snd (np_uniform env (rng st))) = Some (Inr (ys, r'))"
      and st1: "indextmp st1 = ys" "rng st1 = r'"
      by (cases "mutations env ?N (nrep c) ?k (index st) (snd (np_uniform env (rng st)))")
        (auto simp add: map_sum_def split: sum.splits)
    from mutations_trace [OF m] obtain tr where tr: "length tr = ?k + 1"
      "hd tr = (index st, snd (np_uniform env (rng st)))" "last tr = (ys, r')"
      "\<forall>i<?k. mutate env ?N (nrep c) (fst (tr ! i)) (snd (tr ! i)) = Some (Inr (tr ! Suc i))"
      by blast
    have "\<exists>j < length (fst (tr ! i)). \<exists>v. v \<notin> set (fst (tr ! i)) \<and>
        fst (tr ! Suc i) = (fst (tr ! i))[j := v]" if "i < ?k" for i
    proof -
      from tr(4) that have "mutate env ?N (nrep c) (fst (tr ! i)) (snd (tr ! i)) =
          Some (Inr (fst (tr ! Suc i), snd (tr ! Suc i)))" by simp
      then show ?thesis by (rule mutate_single_position)
    qed
    with tr st1 show ?thesis by (intro exI [of _ tr]) simp
  qed
  from gen trace show ?thesis
    by (simp add: nmut_of_def)
qed

lemma mutations_numeral:
  "mutations env N n (numeral k) xs r =
     (case mutate env N n xs r of
        None \<Rightarrow> None
      | Some (Inl e) \<Rightarrow> Some (Inl e)
      | Some (Inr yr) \<Rightarrow> mutations env N n (pred_numeral k) (fst yr) (snd yr))"
  by (simp add: numeral_eq_Suc)

lemma list_update_numeral: "(x # xs)[numeral k := v] = x # xs[pred_numeral k := v]"
  by (simp add: numeral_eq_Suc)

lemma demo_generate_1:
  "generate demo_env5 demo_conf3 (demo_state 0 [1, 2, 3]) =
   Some (Inr (demo_state 5 [1, 4, 3]))"
  by (simp add: demo_env5_def demo_conf3_def demo_state_def generate_def nmut_of_def demo_mut
      demo_conf_def mutations_numeral list_update_numeral)

lemma demo_generate_2:
  "generate demo_env5 demo_conf3 (demo_state 5 [1, 2, 3]) =
   Some (Inr (demo_state 12 [4, 2, 1]))"
  by (simp add: demo_env5_def demo_conf3_def demo_state_def generate_def nmut_of_def demo_mut
      demo_conf_def mutations_numeral list_update_numeral)

lemma demo_generate_3:
  "generate demo_env5 demo_conf3 (demo_state 7 [1, 2, 3]) =
   Some (Inr (demo_state 14 [4, 3, 1]))"
  by (simp add: demo_env5_def demo_conf3_def demo_state_def generate_def nmut_of_def demo_mut
      demo_conf_def mutations_numeral list_update_numeral)

lemma demo_generate_4:
  "generate demo_env5 demo_conf3 (demo_state 9 [1, 2, 3]) =
   Some (Inr (demo_state 25 [4, 2, 5]))"
  by (simp add: demo_env5_def demo_conf3_def demo_state_def generate_def nmut_of_def demo_mut
      demo_conf_def mutations_numeral list_update_numeral)

text \<open>
  On the instance with five replicas the draws 0, 0.5, 0.7 and 0.9 give one, two, three
  and four mutations of \<open>[1, 2, 3]\<close>; for the draw 0.5 the chain has three states.
\<close>

theorem mutation_count_witness:
  "nmut_of 0 = 1 \<and> nmut_of (1 / 2) = 2 \<and> nmut_of (7 / 10) = 3 \<and> nmut_of (9 / 10) = 4 \<and>
   generate demo_env5 demo_conf3 (demo_state 0 [1, 2, 3]) = Some (Inr (demo_state 5 [1, 4, 3])) \<and>
   generate demo_env5 demo_conf3 (demo_state 5 [1, 2, 3]) = Some (Inr (demo_state 12 [4, 2, 1])) \<and>
   generate demo_env5 demo_conf3 (demo_state 7 [1, 2, 3]) = Some (Inr (demo_state 14 [4, 3, 1])) \<and>
   generate demo_env5 demo_conf3 (demo_state 9 [1, 2, 3]) = Some (Inr (demo_state 25 [4, 2, 5])) \<and>
   (\<exists>tr. length tr = 3 \<and> hd tr = ([1, 2, 3 :: int], 6 :: nat) \<and>
      last tr = ([4, 2, 1 :: int], 12 :: nat) \<and>
      (\<exists>j < length (fst (tr ! 0)). \<exists>v. v \<notin> set (fst (tr ! 0)) \<and>
         fst (tr ! 1) = (fst (tr ! 0))[j := v]) \<and>
      (\<exists>j < length (fst (tr ! 1)). \<exists>v. v \<notin> set (fst (tr ! 1)) \<and>
         fst (tr ! 2) = (fst (tr ! 1))[j := v]))"
proof -
  let ?S = "demo_state 5 [1, 2, 3]"
  let ?S' = "demo_state 12 [4, 2, 1]"
  note t = mutation_count [of _ ?S demo_env5 demo_conf3 ?S']
  have a: "nmut_of 0 = 1" using t [of 0] by simp
  have b: "nmut_of (1 / 2) = 2" using t [of "1 / 2"] by simp
  have c: "nmut_of (7 / 10) = 3" using t [of "7 / 10"] by simp
  have d: "nmut_of (9 / 10) = 4" using t [of "9 / 10"] by simp
  have u: "np_uniform demo_env5 (rng ?S) = (1 / 2, 6)"
    by (simp add: demo_env5_def demo_state_def)
  have h: "0 < nite ?S \<and> generate demo_env5 demo_conf3 ?S = Some (Inr ?S')"
    using demo_generate_2 by (simp add: demo_state_def)
  note tr = t [of 0, THEN conjunct2, THEN conjunct2, THEN conjunct2, THEN conjunct2,
      THEN conjunct2, THEN mp, OF h]
  then obtain tr where tr: "length tr = nmut_of (fst (np_uniform demo_env5 (rng ?S))) + 1"
    "hd tr = (index ?S, snd (np_uniform demo_env5 (rng ?S)))" "last tr = (indextmp ?S', rng ?S')"
    "\<forall>i < nmut_of (fst (np_uniform demo_env5 (rng ?S))).
       (\<exists>j < length (fst (tr ! i)). \<exists>v. v \<notin> set (fst (tr ! i)) \<and>
          fst (tr ! Suc i) = (fst (tr ! i))[j := v])"
    by blast
  have k: "nmut_of (fst (np_uniform demo_env5 (rng ?S))) = 2" unfolding u using b by simp
  from tr(1) k have l: "length tr = 3" by simp
  from tr(2) have hd: "hd tr = ([1, 2, 3], 6)" unfolding u by (simp add: demo_state_def)
  from tr(3) have la: "last tr = ([4, 2, 1], 12)" by (simp add: demo_state_def)
  from tr(4) have "0 < (2 :: nat) \<longrightarrow> (\<exists>j < length (fst (tr ! 0)). \<exists>v. v \<notin> set (fst (tr ! 0)) \<and>
         fst (tr ! Suc 0) = (fst (tr ! 0))[j := v])"
    unfolding k by blast
  then have s0: "\<exists>j < length (fst (tr ! 0)). \<exists>v. v \<notin> set (fst (tr ! 0)) \<and>
         fst (tr ! 1) = (fst (tr ! 0))[j := v]"
    by simp
  from tr(4) have "1 < (2 :: nat) \<longrightarrow> (\<exists>j < length (fst (tr ! 1)). \<exists>v. v \<notin> set (fst (tr ! 1)) \<and>
         fst (tr ! Suc 1) = (fst (tr ! 1))[j := v])"
    unfolding k by blast
  then have s1: "\<exists>j < length (fst (tr ! 1)). \<exists>v. v \<notin> set (fst (tr ! 1)) \<and>
         fst (tr ! 2) = (fst (tr ! 1))[j := v]"
    by (simp add: numeral_2_eq_2)
  from l hd la s0 s1 have e: "\<exists>tr. length tr = 3 \<and> hd tr = ([1, 2, 3 :: int], 6 :: nat) \<and>
      last tr = ([4, 2, 1 :: int], 12 :: nat) \<and>
      (\<exists>j < length (fst (tr ! 0)). \<exists>v. v \<notin> set (fst (tr ! 0)) \<and>
         fst (tr ! 1) = (fst (tr ! 0))[j := v]) \<and>
      (\<exists>j < length (fst (tr ! 1)). \<exists>v. v \<notin> set (fst (tr ! 1)) \<and>
         fst (tr ! 2) = (fst (tr ! 1))[j := v])"
    by blast
  from a b c d demo_generate_1 demo_generate_2 demo_generate_3 demo_generate_4 e
  show ?thesis by blast
qed

section \<open>Mutation and duplicates\<close>

lemma draw_val_sound_aux:
  fixes env :: "('pdf, 'rng) env"
  assumes "draw_val env N xs r = Some y"
  shows "rng_ok env \<longrightarrow> (\<forall>vr. y = Inr vr \<longrightarrow> fst vr \<notin> set xs \<and> 1 \<le> fst vr \<and> fst vr \<le> int N)"
proof (rule draw_val.raw_induct [where P = "\<lambda>env N xs r y. rng_ok env \<longrightarrow>
    (\<forall>vr. y = Inr vr \<longrightarrow> fst vr \<notin> set xs \<and> 1 \<le> fst vr \<and> fst vr \<le> int N)", OF _ assms])
  fix f :: "('pdf, 'rng) env \<Rightarrow> nat \<Rightarrow> int list \<Rightarrow> 'rng \<Rightarrow> (error + int \<times> 'rng) option"
    and env :: "('pdf, 'rng) env" and N xs r y
  assume IH: "\<And>env N xs r y. f env N xs r = Some y \<Longrightarrow> rng_ok env \<longrightarrow>
    (\<forall>vr. y = Inr vr \<longrightarrow> fst vr \<notin> set xs \<and> 1 \<le> fst vr \<and> fst vr \<le> int N)"
  assume body: "(case randint env 1 (int N + 1) r of
        Inl e \<Rightarrow> Some (Inl e)
      | Inr vr \<Rightarrow> if fst vr \<notin> set xs then Some (Inr vr) else f env N xs (snd vr)) = Some y"
  let ?vr = "np_randint env 1 (int N + 1) r"
  show "rng_ok env \<longrightarrow>
    (\<forall>vr. y = Inr vr \<longrightarrow> fst vr \<notin> set xs \<and> 1 \<le> fst vr \<and> fst vr \<le> int N)"
  proof (cases "int N + 1 \<le> 1")
    case True
    with body show ?thesis by (auto simp add: randint_def)
  next
    case False
    show ?thesis
    proof (cases "fst ?vr \<in> set xs")
      case True
      with False body have "f env N xs (snd ?vr) = Some y"
        by (simp add: randint_def)
      then show ?thesis by (rule IH)
    next
      case notin: False
      with False body have y: "y = Inr ?vr"
        by (simp add: randint_def)
      show ?thesis
      proof (intro impI allI)
        fix vr assume ok: "rng_ok env" and "y = Inr vr"
        with y have vr: "vr = ?vr" by simp
        from False have "(1::int) < int N + 1" by simp
        with ok have "1 \<le> fst ?vr \<and> fst ?vr < int N + 1"
          unfolding rng_ok_def by blast
        with notin vr show "fst vr \<notin> set xs \<and> 1 \<le> fst vr \<and> fst vr \<le> int N"
          by simp
      qed
    qed
  qed
qed

lemma draw_val_sound:
  "rng_ok env \<Longrightarrow> draw_val env N xs r = Some (Inr vr) \<Longrightarrow>
   fst vr \<notin> set xs \<and> 1 \<le> fst vr \<and> fst vr \<le> int N"
  using draw_val_sound_aux [of env N xs r "Inr vr"] by simp


lemma setitem_sound:
  assumes "setitem xs pos v = Inr ys"
  shows "length ys = length xs" and "set ys \<subseteq> insert v (set xs)"
    and "distinct xs \<Longrightarrow> v \<notin> set xs \<Longrightarrow> distinct ys"
proof -
  from assms obtain j where ys: "ys = xs[j := v]"
    by (auto simp add: setitem_def Let_def split: if_splits)
  show "length ys = length xs" by (simp add: ys)
  show "set ys \<subseteq> insert v (set xs)" unfolding ys by (rule set_update_subset_insert)
  show "distinct ys" if "distinct xs" "v \<notin> set xs"
    unfolding ys using that by (simp add: distinct_list_update)
qed

lemma mutate_sound:
  assumes "rng_ok env" "distinct xs" "set xs \<subseteq> {1..int N}"
    and "mutate env N n xs r = Some (Inr (ys, r'))"
  shows "length ys = length xs \<and> distinct ys \<and> set ys \<subseteq> {1..int N}"
proof -
  from assms(4) obtain vr pr where d: "draw_val env N xs r = Some (Inr vr)"
    and s: "setitem xs (fst pr) (fst vr) = Inr ys"
    by (auto simp add: mutate_def split: option.splits sum.splits)
  from draw_val_sound [OF assms(1) d]
  have v: "fst vr \<notin> set xs" "1 \<le> fst vr" "fst vr \<le> int N" by simp_all
  have "length ys = length xs" by (rule setitem_sound(1) [OF s])
  moreover have "distinct ys" by (rule setitem_sound(3) [OF s assms(2) v(1)])
  moreover have "set ys \<subseteq> {1..int N}"
    using setitem_sound(2) [OF s] assms(3) v(2,3) by auto
  ultimately show ?thesis by simp
qed

text \<open>
  C7, for an input without duplicates.  When the generator keeps its draws in range and the entries of the
  input set are distinct and lie in \<open>[1, N]\<close>, a run of mutations that returns gives a
  set of the same length whose entries are distinct and lie in \<open>[1, N]\<close>.
\<close>

theorem mutations_keep_distinct:
  assumes "rng_ok env" "distinct xs" "set xs \<subseteq> {1..int N}"
    and "mutations env N n t xs r = Some (Inr (ys, r'))"
  shows "length ys = length xs \<and> distinct ys \<and> set ys \<subseteq> {1..int N}"
  using assms(2-)
proof (induction t arbitrary: xs r)
  case 0
  then show ?case by simp
next
  case (Suc t)
  from Suc.prems(3) obtain zs r1 where m: "mutate env N n xs r = Some (Inr (zs, r1))"
    and rest: "mutations env N n t zs r1 = Some (Inr (ys, r'))"
    by (auto split: option.splits sum.splits)
  from mutate_sound [OF assms(1) Suc.prems(1,2) m]
  have z: "length zs = length xs" "distinct zs" "set zs \<subseteq> {1..int N}" by simp_all
  from Suc.IH [OF z(2,3) rest] z(1) show ?case by simp
qed

lemma demo_mut_1: "mutations (demo_env 1 inverse) 5 3 1 [1, 2, 3] 0 = Some (Inr ([1, 4, 3], 5))"
  by (simp add: demo_mut eval_nat_numeral)

theorem mutations_keep_distinct_witness:
  "length [1, 4, 3 :: int] = length [1, 2, 3 :: int] \<and> distinct [1, 4, 3 :: int] \<and>
   set [1, 4, 3 :: int] \<subseteq> {1..int 5}"
  by (rule mutations_keep_distinct [OF demo_rng_ok _ _ demo_mut_1]) simp_all

text \<open>
  C7 fails for an input with duplicates: a mutation overwrites one position only, so a duplicate that the
  input already has at two other positions stays.  With \<open>N = 5\<close> the set \<open>[2, 1, 1]\<close>
  becomes \<open>[3, 1, 1]\<close>.
\<close>

theorem mutations_keep_duplicates:
  "mutations (demo_env 1 inverse) 5 3 1 [2, 1, 1] 0 = Some (Inr ([3, 1, 1], 4)) \<and>
   \<not> distinct [3, 1, 1 :: int]"
  by (simp add: demo_mut eval_nat_numeral)

section \<open>The search loop\<close>

lemma demo_init:
  "init_state (demo_env s rc) [1] g =
   \<lparr>nite = 0, berf = 10 ^ 8, index = [1], indextmp = [1], rng = 0, pdf = [1]\<rparr>"
  by (simp add: init_state_def)

lemma demo_generate:
  "generate (demo_env s rc) (demo_conf k)
     \<lparr>nite = 1, berf = b, index = [1], indextmp = [1], rng = 0, pdf = [1]\<rparr> =
   Some (Inr \<lparr>nite = 1, berf = b, index = [1], indextmp = [2], rng = 3, pdf = [2]\<rparr>)"
  by (simp add: generate_def nmut_of_def demo_mut demo_conf_def)

lemma demo_iteration_0:
  "iteration (demo_env 1 inverse) (demo_conf k)
     \<lparr>nite = 0, berf = 10 ^ 8, index = [1], indextmp = [1], rng = 0, pdf = [1]\<rparr> =
   Some (Inr \<lparr>nite = 1, berf = 0, index = [1], indextmp = [1], rng = 0, pdf = [1]\<rparr>)"
  by (simp add: iteration_def generate_def demo_eval_1 accept_def)

lemma demo_iteration_1:
  "iteration (demo_env 1 inverse) (demo_conf k)
     \<lparr>nite = 1, berf = 0, index = [1], indextmp = [1], rng = 0, pdf = [1]\<rparr> =
   Some (Inr \<lparr>nite = 2, berf = 0, index = [1], indextmp = [2], rng = 3, pdf = [2]\<rparr>)"
  by (simp add: iteration_def demo_generate demo_eval_2 accept_def)

lemma demo_run:
  "main_loop (demo_env 1 inverse) (demo_conf 2) (init_state (demo_env 1 inverse) [1] g) =
   Some (Inr \<lparr>nite = 2, berf = 0, index = [1], indextmp = [2], rng = 3, pdf = [2]\<rparr>)"
proof -
  have c: "nitemax (demo_conf 2) = 2" by (simp add: demo_conf_def)
  have "main_loop (demo_env 1 inverse) (demo_conf 2) (init_state (demo_env 1 inverse) [1] g) =
      main_loop (demo_env 1 inverse) (demo_conf 2)
        \<lparr>nite = 1, berf = 0, index = [1], indextmp = [1], rng = 0, pdf = [1]\<rparr>"
    unfolding demo_init by (rule main_loop_step [OF _ demo_iteration_0]) (simp add: c)
  also have "\<dots> = main_loop (demo_env 1 inverse) (demo_conf 2)
        \<lparr>nite = 2, berf = 0, index = [1], indextmp = [2], rng = 3, pdf = [2]\<rparr>"
    by (rule main_loop_step [OF _ demo_iteration_1]) (simp add: c)
  also have "\<dots> = Some (Inr \<lparr>nite = 2, berf = 0, index = [1], indextmp = [2], rng = 3, pdf = [2]\<rparr>)"
    by (rule main_loop_exit) (simp add: c)
  finally show ?thesis .
qed

text \<open>
  C1, with the sentinel of the code.  Before the first pass the best ERF is \<open>10 ^ 8\<close>
  (line 54), a finite number, and the counter is 0.  The first pass scores the initial
  set; when the score is \<open>est\<close>, the candidate is accepted and \<open>est\<close> becomes the best
  ERF exactly when \<open>est < 10 ^ 8\<close>, and otherwise only the counter advances.
\<close>

theorem first_candidate:
  assumes "evaluate env c p0 = Inr (Scored est)"
  shows "berf (init_state env p0 g) = 10 ^ 8 \<and> nite (init_state env p0 g) = 0 \<and>
    iteration env c (init_state env p0 g) =
      Some (Inr (if est < 10 ^ 8
                 then (init_state env p0 g)\<lparr>nite := 1, berf := est, index := pdf_fin env p0\<rparr>
                 else (init_state env p0 g)\<lparr>nite := 1\<rparr>))"
proof -
  have g: "generate env c (init_state env p0 g) = Some (Inr (init_state env p0 g))"
    by (rule generate_zero) (simp add: init_state_def)
  have "pdf (init_state env p0 g) = p0" by (simp add: init_state_def)
  with assms have "evaluate env c (pdf (init_state env p0 g)) = Inr (Scored est)" by simp
  from iteration_scored [OF g this] show ?thesis
    by (simp add: accept_def init_state_def)
qed

text \<open>
  On the small instance the initial set scores 0 and is accepted.
\<close>

theorem first_candidate_witness:
  "iteration (demo_env 1 inverse) (demo_conf 2) (init_state (demo_env 1 inverse) [1] 0) =
   Some (Inr \<lparr>nite = 1, berf = 0, index = [1], indextmp = [1], rng = 0, pdf = [1]\<rparr>)"
  using first_candidate [OF demo_eval_1 [of 2], where g = 0] by (simp add: init_state_def)

text \<open>
  C1 as stated, with the sentinel read as infinity, fails: on the small instance with a
  prior standard deviation of \<open>1 / (10 ^ 9 + 1)\<close> the initial set scores \<open>10 ^ 9\<close>,
  which is not below \<open>10 ^ 8\<close>; after the first pass the best ERF is still \<open>10 ^ 8\<close>.
\<close>

theorem first_candidate_not_accepted:
  "berf (init_state (demo_env (1 / (10 ^ 9 + 1)) inverse) [1] 0) = 10 ^ 8 \<and>
   evaluate (demo_env (1 / (10 ^ 9 + 1)) inverse) (demo_conf 1)
     (pdf (init_state (demo_env (1 / (10 ^ 9 + 1)) inverse) [1] 0)) = Inr (Scored (10 ^ 9)) \<and>
   iteration (demo_env (1 / (10 ^ 9 + 1)) inverse) (demo_conf 1)
     (init_state (demo_env (1 / (10 ^ 9 + 1)) inverse) [1] 0) =
   Some (Inr \<lparr>nite = 1, berf = 10 ^ 8, index = [1], indextmp = [1], rng = 0, pdf = [1]\<rparr>)"
proof -
  let ?E = "demo_env (1 / (10 ^ 9 + 1)) inverse"
  have p: "pdf (init_state ?E [1] 0) = [1]" by (simp add: init_state_def)
  have e: "evaluate ?E (demo_conf 1) (pdf (init_state ?E [1] 0)) = Inr (Scored (10 ^ 9))"
    unfolding p by (rule demo_eval_big)
  have g: "generate ?E (demo_conf 1) (init_state ?E [1] 0) = Some (Inr (init_state ?E [1] 0))"
    by (rule generate_zero) (simp add: init_state_def)
  have a: "accept (init_state ?E [1] 0) (10 ^ 9) = init_state ?E [1] 0"
    by (simp add: accept_def init_state_def)
  have "iteration ?E (demo_conf 1) (init_state ?E [1] 0) =
      Some (Inr ((init_state ?E [1] 0)\<lparr>nite := nite (init_state ?E [1] 0) + 1\<rparr>))"
    using iteration_scored [OF g e] unfolding a .
  then have "iteration ?E (demo_conf 1) (init_state ?E [1] 0) =
      Some (Inr \<lparr>nite = 1, berf = 10 ^ 8, index = [1], indextmp = [1], rng = 0, pdf = [1]\<rparr>)"
    by (simp add: init_state_def)
  moreover have "berf (init_state ?E [1] 0) = 10 ^ 8" by (simp add: init_state_def)
  ultimately show ?thesis using e by blast
qed

text \<open>
  C3.  When the identity check fails for the candidate, the pass ends in the state that
  candidate generation left: best ERF, accepted set and counter are those from before the
  pass, no score is computed, and the loop goes on from there.
\<close>

theorem degenerate_discarded:
  assumes "generate env c st = Some (Inr st1)"
    and "evaluate env c (pdf st1) = Inr Degenerate"
  shows "iteration env c st = Some (Inr st1) \<and>
    berf st1 = berf st \<and> index st1 = index st \<and> nite st1 = nite st \<and>
    (nite st < nitemax c \<longrightarrow> main_loop env c st = main_loop env c st1)"
proof -
  have it: "iteration env c st = Some (Inr st1)"
    by (rule iteration_degenerate [OF assms])
  with generate_keeps [OF assms(1)] show ?thesis
    by (simp add: main_loop_step)
qed

text \<open>
  On the small instance with the coarse reciprocal the candidate \<open>[2]\<close> fails the check.
\<close>

theorem degenerate_discarded_witness:
  "iteration (demo_env 1 coarse) (demo_conf 2)
     \<lparr>nite = 1, berf = 0, index = [1], indextmp = [1], rng = 0, pdf = [1]\<rparr> =
   Some (Inr \<lparr>nite = 1, berf = 0, index = [1], indextmp = [2], rng = 3, pdf = [2]\<rparr>) \<and>
   main_loop (demo_env 1 coarse) (demo_conf 2)
     \<lparr>nite = 1, berf = 0, index = [1], indextmp = [1], rng = 0, pdf = [1]\<rparr> =
   main_loop (demo_env 1 coarse) (demo_conf 2)
     \<lparr>nite = 1, berf = 0, index = [1], indextmp = [2], rng = 3, pdf = [2]\<rparr>"
proof -
  have d: "evaluate (demo_env 1 coarse) (demo_conf 2)
     (pdf \<lparr>nite = 1, berf = 0, index = [1], indextmp = [2], rng = 3, pdf = [2]\<rparr>) = Inr Degenerate"
    by (simp add: demo_eval_coarse_2)
  from degenerate_discarded [OF demo_generate d] show ?thesis
    by (simp add: demo_conf_def)
qed

text \<open>
  C4.  A scored candidate replaces the best ERF and the accepted set exactly when its ERF
  is strictly below the best ERF, and otherwise changes neither; so the best ERF never
  grows, over one pass and over the whole run of the loop.
\<close>

theorem accept_rule_monotone:
  "(est < berf st \<longrightarrow> berf (accept st est) = est \<and> index (accept st est) = indextmp st) \<and>
   (\<not> est < berf st \<longrightarrow> accept st est = st) \<and>
   (generate env c st = Some (Inr st1) \<and> evaluate env c (pdf st1) = Inr (Scored est) \<longrightarrow>
      iteration env c st = Some (Inr ((accept st1 est)\<lparr>nite := nite st1 + 1\<rparr>))) \<and>
   (iteration env c st = Some (Inr st') \<longrightarrow> berf st' \<le> berf st) \<and>
   (main_loop env c st = Some (Inr st'') \<longrightarrow> berf st'' \<le> berf st)"
  using iteration_scored [of env c st st1 est] iteration_berf_le [of env c st st']
    main_loop_berf_le_aux [of env c st "Inr st''"]
  by (simp add: accept_def)

text \<open>
  Two passes on the small instance: the initial set is accepted with ERF 0, the mutated
  set \<open>[2]\<close> scores 1 and is rejected.
\<close>

theorem accept_rule_monotone_witness:
  "berf (accept \<lparr>nite = 0, berf = 10 ^ 8, index = [1], indextmp = [1], rng = 0 :: nat, pdf = [1 :: int]\<rparr> 0) = 0 \<and>
   accept \<lparr>nite = 1, berf = 0, index = [1], indextmp = [2], rng = 3 :: nat, pdf = [2 :: int]\<rparr> 1 =
     \<lparr>nite = 1, berf = 0, index = [1], indextmp = [2], rng = 3, pdf = [2]\<rparr> \<and>
   main_loop (demo_env 1 inverse) (demo_conf 2) (init_state (demo_env 1 inverse) [1] 0) =
     Some (Inr \<lparr>nite = 2, berf = 0, index = [1], indextmp = [2], rng = 3, pdf = [2]\<rparr>) \<and>
   berf \<lparr>nite = 2, berf = 0, index = [1], indextmp = [2], rng = 3 :: nat, pdf = [2 :: int]\<rparr>
     \<le> berf (init_state (demo_env 1 inverse) [1] 0)"
proof -
  have a: "berf (accept \<lparr>nite = 0, berf = 10 ^ 8, index = [1], indextmp = [1], rng = 0 :: nat, pdf = [1 :: int]\<rparr> 0) = 0"
    using accept_rule_monotone [of 0 "\<lparr>nite = 0, berf = 10 ^ 8, index = [1], indextmp = [1], rng = 0 :: nat, pdf = [1 :: int]\<rparr>"]
    by simp
  have b: "accept \<lparr>nite = 1, berf = 0, index = [1], indextmp = [2], rng = 3 :: nat, pdf = [2 :: int]\<rparr> 1 =
     \<lparr>nite = 1, berf = 0, index = [1], indextmp = [2], rng = 3, pdf = [2]\<rparr>"
    using accept_rule_monotone [of 1 "\<lparr>nite = 1, berf = 0, index = [1], indextmp = [2], rng = 3 :: nat, pdf = [2 :: int]\<rparr>"]
    by simp
  have c: "berf \<lparr>nite = 2, berf = 0, index = [1], indextmp = [2], rng = 3 :: nat, pdf = [2 :: int]\<rparr>
     \<le> berf (init_state (demo_env 1 inverse) [1] 0)"
    using accept_rule_monotone [of _ "init_state (demo_env 1 inverse) [1] 0" "demo_env 1 inverse"
        "demo_conf 2" _ _ "\<lparr>nite = 2, berf = 0, index = [1], indextmp = [2], rng = 3, pdf = [2]\<rparr>"]
      demo_run [of 0]
    by blast
  from a b c demo_run [of 0] show ?thesis by blast
qed

text \<open>
  C8.  While the counter is 0 candidate generation returns the state as it is: no draw is
  taken, the object is not rebased, and the first pass scores the initial set
  \<^verbatim>\<open>pdf.fin\<close> on the object as constructed.  Generation changes the state only when the
  counter is positive, and it never changes the accepted set, since it works on a copy.
\<close>

theorem iteration_zero_no_mutation:
  "(\<not> 0 < nite st \<longrightarrow> generate env c st = Some (Inr st)) \<and>
   generate env c (init_state env p0 g) = Some (Inr (init_state env p0 g)) \<and>
   indextmp (init_state env p0 g) = pdf_fin env p0 \<and>
   pdf (init_state env p0 g) = p0 \<and>
   iteration env c (init_state env p0 g) =
     (case evaluate env c p0 of
        Inl e \<Rightarrow> Some (Inl e)
      | Inr Degenerate \<Rightarrow> Some (Inr (init_state env p0 g))
      | Inr (Scored est) \<Rightarrow> Some (Inr ((accept (init_state env p0 g) est)\<lparr>nite := 1\<rparr>))) \<and>
   (generate env c st = Some (Inr st1) \<longrightarrow> index st1 = index st \<and> (st1 \<noteq> st \<longrightarrow> 0 < nite st))"
proof -
  have g: "generate env c (init_state env p0 g) = Some (Inr (init_state env p0 g))"
    by (rule generate_zero) (simp add: init_state_def)
  have i: "iteration env c (init_state env p0 g) =
     (case evaluate env c p0 of
        Inl e \<Rightarrow> Some (Inl e)
      | Inr Degenerate \<Rightarrow> Some (Inr (init_state env p0 g))
      | Inr (Scored est) \<Rightarrow> Some (Inr ((accept (init_state env p0 g) est)\<lparr>nite := 1\<rparr>)))"
    unfolding iteration_def g by (simp add: init_state_def split: sum.splits outcome.splits)
  from g i generate_zero [of st env c] generate_keeps(1) [of env c st st1]
    generate_changes [of env c st st1]
  show ?thesis by (auto simp add: init_state_def)
qed

text \<open>
  On the small instance: the first pass, and a pass with counter 1 that mutates the
  copy \<open>[1]\<close> of the accepted set into \<open>[2]\<close>.
\<close>

theorem iteration_zero_no_mutation_witness:
  "generate (demo_env 1 inverse) (demo_conf 2) (init_state (demo_env 1 inverse) [1] 0) =
     Some (Inr (init_state (demo_env 1 inverse) [1] 0)) \<and>
   iteration (demo_env 1 inverse) (demo_conf 2) (init_state (demo_env 1 inverse) [1] 0) =
     Some (Inr \<lparr>nite = 1, berf = 0, index = [1], indextmp = [1], rng = 0, pdf = [1]\<rparr>) \<and>
   index \<lparr>nite = 1, berf = 0, index = [1], indextmp = [2], rng = 3 :: nat, pdf = [2 :: int]\<rparr> =
     index \<lparr>nite = 1, berf = 0, index = [1], indextmp = [1], rng = 0 :: nat, pdf = [1 :: int]\<rparr>"
  using iteration_zero_no_mutation [of "init_state (demo_env 1 inverse) [1] 0" "demo_env 1 inverse"
      "demo_conf 2" "[1]" 0]
    iteration_zero_no_mutation [of
      "\<lparr>nite = 1, berf = 0, index = [1], indextmp = [1], rng = 0, pdf = [1]\<rparr>" "demo_env 1 inverse"
      "demo_conf 2" "[1]" 0 "\<lparr>nite = 1, berf = 0, index = [1], indextmp = [2], rng = 3, pdf = [2]\<rparr>"]
    demo_generate [of 1 inverse 2 0]
  by (simp add: demo_eval_1 accept_def init_state_def)

text \<open>
  C9.  If the identity check fails while the counter is 0 and the budget is positive, the
  loop does not return: the pass changes nothing, so the same state is evaluated again.
  The same holds for \<^verbatim>\<open>main\<close> when the initial set fails the check.
\<close>

theorem degenerate_at_start_diverges:
  "(nite st = 0 \<and> 0 < nitemax c \<and> evaluate env c (pdf st) = Inr Degenerate \<longrightarrow>
      main_loop env c st = None) \<and>
   (0 < max_iters \<and> evaluate env (init_conf env p0 n nf' nx' max_iters) p0 = Inr Degenerate \<longrightarrow>
      main env p0 n nf' nx' max_iters g = None)"
proof -
  have loop: "main_loop env c st = None"
    if "nite st = 0 \<and> 0 < nitemax c \<and> evaluate env c (pdf st) = Inr Degenerate"
    for env :: "('a, 'b) env" and c st
    using main_loop_stuck_aux [of env c st] that by (cases "main_loop env c st") auto
  have "main env p0 n nf' nx' max_iters g = None"
    if "0 < max_iters \<and> evaluate env (init_conf env p0 n nf' nx' max_iters) p0 = Inr Degenerate"
    using loop [of "init_state env p0 g" "init_conf env p0 n nf' nx' max_iters" env] that
    by (simp add: main_def init_state_def init_conf_def)
  with loop show ?thesis by blast
qed

text \<open>
  On the small instance with the coarse reciprocal the initial set fails the check.
\<close>

theorem degenerate_at_start_diverges_witness:
  "main_loop (demo_env 1 coarse) (demo_conf 5) (init_state (demo_env 1 coarse) [1] 0) = None \<and>
   main (demo_env 1 coarse) [1] 1 1 1 5 0 = None"
proof -
  let ?E = "demo_env 1 coarse"
  have n: "nitemax (demo_conf 5) = 5" by (simp add: demo_conf_def)
  have p: "pdf (init_state ?E [1] 0) = [1]" "nite (init_state ?E [1] 0) = 0"
    by (simp_all add: init_state_def)
  have h1: "nite (init_state ?E [1] 0) = 0 \<and> 0 < nitemax (demo_conf 5) \<and>
      evaluate ?E (demo_conf 5) (pdf (init_state ?E [1] 0)) = Inr Degenerate"
    unfolding p n by (simp add: demo_eval_coarse_1)
  have h2: "0 < (5 :: int) \<and> evaluate ?E (init_conf ?E [1] 1 1 1 5) [1] = Inr Degenerate"
    unfolding demo_init_conf by (simp add: demo_eval_coarse_1)
  from degenerate_at_start_diverges [of "init_state ?E [1] 0" "demo_conf 5" ?E 5 "[1]" 1 1 1 0]
    h1 h2
  show ?thesis by blast
qed

end
